theory Spec2Isabelle
  imports Complex_Main
begin

section \<open>Python values, edge data and the street graph\<close>

text \<open>
  The program (Pathing/GPS.py) routes over a street map held in a networkx
  \<^verbatim>\<open>MultiDiGraph\<close>.  Node identifiers are integers.  Attribute dictionaries are
  Python dicts; they are association lists here (first binding wins, order is the
  dict's insertion order).  A number is given by its value, a real; where the
  program computes with numbers it does so in double-precision floating point
  (section \<open>Floating point\<close>).  The only non-finite float the program writes down is
  the literal \<^verbatim>\<open>float('inf')\<close> that \<^verbatim>\<open>costWheelchair\<close> returns, which has a
  constructor of its own.
\<close>

type_synonym node = int

datatype error =
  NodeNotFound | NetworkXNoPath | KeyError | TypeError | OverflowError | ValueError

datatype pykey = KStr string | KInt int

datatype pyval = VNone | VStr string | VNum real | VDict "(pykey \<times> pyval) list"

type_synonym pydict = "(pykey \<times> pyval) list"

text \<open>\<^verbatim>\<open>d.get(k, default)\<close>; \<^verbatim>\<open>d.get(k)\<close> is \<^verbatim>\<open>d.get(k, None)\<close>.\<close>

definition py_get :: "pydict \<Rightarrow> pykey \<Rightarrow> pyval \<Rightarrow> pyval" where
  "py_get d k dflt = (case map_of d k of None \<Rightarrow> dflt | Some v \<Rightarrow> v)"

text \<open>What a weight function hands back: an attribute value, or \<^verbatim>\<open>float('inf')\<close>.\<close>

datatype weight = Attr pyval | FloatInf

text \<open>
  \<^verbatim>\<open>
  def costWheelchair(u, v, data):
      if data.get("wheelchair") == "yes":
          return data.get("length", 1)
      else:
          return float('inf')
  \<close>
\<close>

definition costWheelchair :: "node \<Rightarrow> node \<Rightarrow> pydict \<Rightarrow> weight" where
  "costWheelchair u v data =
     (if py_get data (KStr ''wheelchair'') VNone = VStr ''yes''
      then Attr (py_get data (KStr ''length'') (VNum 1))
      else FloatInf)"

text \<open>
  The graph: \<open>g_node\<close> is networkx's \<^verbatim>\<open>G._node\<close> (node to attribute dict) and
  \<open>g_adj\<close> is \<^verbatim>\<open>G._adj\<close>.  In a \<^verbatim>\<open>MultiDiGraph\<close> the adjacency of a node maps each
  successor to a dict from edge key to that edge's attribute dict, so the inner
  \<open>pydict\<close> of \<open>g_adj\<close> has edge keys as keys and \<open>VDict\<close> attribute dicts as values.
\<close>

record graph =
  g_node :: "(node \<times> pydict) list"
  g_adj :: "(node \<times> (node \<times> pydict) list) list"

definition has_node :: "graph \<Rightarrow> node \<Rightarrow> bool" where
  "has_node G n = (map_of (g_node G) n \<noteq> None)"

section \<open>Floating point\<close>

text \<open>
  Python floats are IEEE 754 doubles: 53 significant bits, exponents of the last
  bit from \<open>-1074\<close> to \<open>971\<close>.  An arithmetic operation returns the exact result
  rounded to the nearest double, ties to the even significand; a result of
  magnitude \<open>2\<^sup>1\<^sup>0\<^sup>2\<^sup>4\<close> or more after rounding overflows.  The coordinates of a
  street map are floats.  A coordinate stored as a Python int takes part in the
  arithmetic here as the float of its value; on integers of magnitude below
  \<open>2\<^sup>2\<^sup>6\<close>, as in the maps below, Python's integer arithmetic gives the same
  result.
\<close>

definition pw2 :: "int \<Rightarrow> real" where
  "pw2 k = 2 powr of_int k"

definition round_half_even :: "real \<Rightarrow> int" where
  "round_half_even q =
     (let f = \<lfloor>q\<rfloor>; d = q - of_int f in
      if d < 1 / 2 then f else if 1 / 2 < d then f + 1 else if even f then f else f + 1)"

text \<open>The exponent of the last bit of the double nearest to \<open>x\<close>.\<close>

definition ulp_exponent :: "real \<Rightarrow> int" where
  "ulp_exponent x = max (\<lfloor>log 2 \<bar>x\<bar>\<rfloor> - 52) (- 1074)"

text \<open>Rounding to nearest, before the overflow check.\<close>

definition nearest_double :: "real \<Rightarrow> real" where
  "nearest_double x =
     (if x = 0 then 0
      else of_int (round_half_even (x / pw2 (ulp_exponent x))) * pw2 (ulp_exponent x))"

text \<open>A float that may be negative: a difference of coordinates.\<close>

datatype pyfloat = Fl real | PosInf | NegInf

definition to_float :: "real \<Rightarrow> pyfloat" where
  "to_float r =
     (let y = nearest_double r in
      if pw2 1024 \<le> y then PosInf else if y \<le> - pw2 1024 then NegInf else Fl y)"

text \<open>
  Distances, costs and priorities: a finite number or \<^verbatim>\<open>inf\<close>.  \<open>fadd\<close> is the sum
  of two such values as numbers; \<open>fle\<close> and \<open>flt\<close> are \<^verbatim>\<open><=\<close> and \<^verbatim>\<open><\<close>.
\<close>

datatype fnum = Fin real | PInf

fun fadd :: "fnum \<Rightarrow> fnum \<Rightarrow> fnum" where
  "fadd (Fin a) (Fin b) = Fin (a + b)"
| "fadd _ _ = PInf"

fun fle :: "fnum \<Rightarrow> fnum \<Rightarrow> bool" where
  "fle (Fin a) (Fin b) = (a \<le> b)"
| "fle PInf (Fin b) = False"
| "fle _ PInf = True"

fun flt :: "fnum \<Rightarrow> fnum \<Rightarrow> bool" where
  "flt (Fin a) (Fin b) = (a < b)"
| "flt (Fin a) PInf = True"
| "flt PInf _ = False"

text \<open>
  \<^verbatim>\<open>a + b\<close> on floats that are not negative infinity: the rounded sum, \<^verbatim>\<open>inf\<close> on
  overflow.
\<close>

fun float_add :: "fnum \<Rightarrow> fnum \<Rightarrow> fnum" where
  "float_add (Fin a) (Fin b) =
     (let y = nearest_double (a + b) in if pw2 1024 \<le> y then PInf else Fin y)"
| "float_add _ _ = PInf"

text \<open>
  \<^verbatim>\<open>x ** 2\<close> on a float is C's \<^verbatim>\<open>pow(x, 2.0)\<close>, taken as correctly rounded.  Python
  turns the range error of an overflowing \<^verbatim>\<open>pow\<close> into OverflowError; an
  underflow is silent, and the square of an infinity is \<^verbatim>\<open>inf\<close>.
\<close>

fun float_sq :: "pyfloat \<Rightarrow> error + fnum" where
  "float_sq (Fl x) =
     (let y = nearest_double (x * x) in
      if pw2 1024 \<le> y then Inl OverflowError else Inr (Fin y))"
| "float_sq _ = Inr PInf"

text \<open>\<^verbatim>\<open>math.sqrt\<close>: correctly rounded, ValueError on a negative argument.\<close>

fun float_sqrt :: "fnum \<Rightarrow> error + fnum" where
  "float_sqrt (Fin a) = (if a < 0 then Inl ValueError else Inr (Fin (nearest_double (sqrt a))))"
| "float_sqrt PInf = Inr PInf"

section \<open>The heuristic\<close>

definition bind_err :: "error + 'a \<Rightarrow> ('a \<Rightarrow> error + 'b) \<Rightarrow> error + 'b" where
  "bind_err r f = (case r of Inl e \<Rightarrow> Inl e | Inr a \<Rightarrow> f a)"

text \<open>\<^verbatim>\<open>G.nodes[u][k]\<close>: a missing node or a missing attribute raises KeyError.\<close>

definition node_attr :: "graph \<Rightarrow> node \<Rightarrow> string \<Rightarrow> error + pyval" where
  "node_attr G u k =
     (case map_of (g_node G) u of
        None \<Rightarrow> Inl KeyError
      | Some d \<Rightarrow> (case map_of d (KStr k) of None \<Rightarrow> Inl KeyError | Some a \<Rightarrow> Inr a))"

text \<open>\<^verbatim>\<open>a - b\<close>: the rounded difference of two numbers, TypeError on anything else.\<close>

fun py_sub :: "pyval \<Rightarrow> pyval \<Rightarrow> error + pyfloat" where
  "py_sub (VNum a) (VNum b) = Inr (to_float (a - b))"
| "py_sub _ _ = Inl TypeError"

text \<open>
  \<^verbatim>\<open>sqrt((x1 - x2) ** 2 + (y1 - y2) ** 2)\<close>, evaluated left to right: the
  difference and the square of the \<open>x\<close> coordinates come before those of the \<open>y\<close>
  coordinates.
\<close>

definition distance :: "pyval \<Rightarrow> pyval \<Rightarrow> pyval \<Rightarrow> pyval \<Rightarrow> error + fnum" where
  "distance x1 y1 x2 y2 =
     bind_err (py_sub x1 x2) (\<lambda>dx.
     bind_err (float_sq dx) (\<lambda>px.
     bind_err (py_sub y1 y2) (\<lambda>dy.
     bind_err (float_sq dy) (\<lambda>py.
       float_sqrt (float_add px py)))))"

text \<open>
  \<^verbatim>\<open>
  def euclidianDistNode(u, v, G):
      x1, y1 = G.nodes[u]['x'], G.nodes[u]['y']
      x2, y2 = G.nodes[v]['x'], G.nodes[v]['y']
      return sqrt((x1 - x2) ** 2 + (y1 - y2) ** 2)
  \<close>
\<close>

definition euclidianDistNode :: "node \<Rightarrow> node \<Rightarrow> graph \<Rightarrow> error + fnum" where
  "euclidianDistNode u v G =
     bind_err (node_attr G u ''x'') (\<lambda>x1.
     bind_err (node_attr G u ''y'') (\<lambda>y1.
     bind_err (node_attr G v ''x'') (\<lambda>x2.
     bind_err (node_attr G v ''y'') (\<lambda>y2.
       distance x1 y1 x2 y2))))"

section \<open>The search: networkx's A* as the program calls it\<close>

text \<open>
  \<^verbatim>\<open>wheelchairPath\<close> delegates to \<^verbatim>\<open>networkx.astar_path\<close>.  The library routine is
  embedded statement by statement (networkx 3.x,
  \<^verbatim>\<open>networkx/algorithms/shortest_paths/astar.py\<close>):
  \<^verbatim>\<open>
  def astar_path(G, source, target, heuristic=None, weight="weight", *, cutoff=None):
      if source not in G: raise nx.NodeNotFound(...)
      if target not in G: raise nx.NodeNotFound(...)
      weight = _weight_function(G, weight)     # a callable is used as it is
      G_succ = G._adj
      c = count()
      queue = [(0, next(c), source, 0, None)]
      enqueued = {}
      explored = {}
      while queue:
          _, __, curnode, dist, parent = pop(queue)
          if curnode == target:
              path = [curnode]
              node = parent
              while node is not None:
                  path.append(node)
                  node = explored[node]
              path.reverse()
              return path
          if curnode in explored:
              if explored[curnode] is None:
                  continue
              qcost, h = enqueued[curnode]
              if qcost < dist:
                  continue
          explored[curnode] = parent
          for neighbor, w in G_succ[curnode].items():
              cost = weight(curnode, neighbor, w)
              if cost is None:
                  continue
              ncost = dist + cost
              if neighbor in enqueued:
                  qcost, h = enqueued[neighbor]
                  if qcost <= ncost:
                      continue
              else:
                  h = heuristic(neighbor, target)
              if cutoff and ncost + h > cutoff:
                  continue
              enqueued[neighbor] = ncost, h
              push(queue, (ncost + h, next(c), neighbor, ncost, curnode))
      raise nx.NetworkXNoPath(...)
  \<close>
  The weight callable receives \<^verbatim>\<open>G._adj[curnode][neighbor]\<close>, which for a
  \<^verbatim>\<open>MultiDiGraph\<close> is the dict of parallel edges keyed by edge key.  An edge is left
  out only when the weight is \<^verbatim>\<open>None\<close>.  \<^verbatim>\<open>cutoff\<close> is never passed.  The
  sums \<^verbatim>\<open>dist + cost\<close> and \<^verbatim>\<open>ncost + h\<close> are float additions.
\<close>

text \<open>\<^verbatim>\<open>dist + cost\<close> for a cost that is not \<^verbatim>\<open>None\<close>.\<close>

fun as_number :: "weight \<Rightarrow> error + fnum" where
  "as_number FloatInf = Inr PInf"
| "as_number (Attr (VNum r)) = Inr (Fin r)"
| "as_number (Attr _) = Inl TypeError"

text \<open>A queue entry: priority, counter, node, cost to reach, parent.\<close>

type_synonym entry = "fnum \<times> nat \<times> node \<times> fnum \<times> node option"

text \<open>
  Tuple comparison.  Counters are distinct, so the comparison never gets past the
  second component.
\<close>

fun entry_lt :: "entry \<Rightarrow> entry \<Rightarrow> bool" where
  "entry_lt (p, c, _) (p', c', _) = (if p = p' then c < c' else flt p p')"

text \<open>
  heapq keeps a binary heap in a list.  The search only pushes and pops, so the
  queue is the list of its entries and a pop takes out the least one.
\<close>

fun least :: "entry \<Rightarrow> entry list \<Rightarrow> entry" where
  "least m [] = m"
| "least m (e # es) = least (if entry_lt e m then e else m) es"

definition heappop :: "entry list \<Rightarrow> entry \<times> entry list" where
  "heappop q = (let m = least (hd q) (tl q) in (m, remove1 m q))"

definition heappush :: "entry list \<Rightarrow> entry \<Rightarrow> entry list" where
  "heappush q e = q @ [e]"

record search =
  counter :: nat
  queue :: "entry list"
  enqueued :: "node \<rightharpoonup> fnum \<times> fnum"
  explored :: "node \<rightharpoonup> node option"

text \<open>The \<^verbatim>\<open>for neighbor, w in G_succ[curnode].items()\<close> loop.\<close>

fun scan_neighbors ::
  "(node \<Rightarrow> node \<Rightarrow> error + fnum) \<Rightarrow> (node \<Rightarrow> node \<Rightarrow> pydict \<Rightarrow> weight) \<Rightarrow>
   node \<Rightarrow> node \<Rightarrow> fnum \<Rightarrow> (node \<times> pydict) list \<Rightarrow> search \<Rightarrow> error + search" where
  "scan_neighbors heuristic wt target curnode dst [] s = Inr s"
| "scan_neighbors heuristic wt target curnode dst ((neighbor, w) # rest) s =
     (let cost = wt curnode neighbor w in
      if cost = Attr VNone then scan_neighbors heuristic wt target curnode dst rest s
      else
        bind_err (as_number cost) (\<lambda>cost'.
          let ncost = float_add dst cost' in
          bind_err
            (case enqueued s neighbor of
               Some (qcost, h) \<Rightarrow> Inr (if fle qcost ncost then None else Some h)
             | None \<Rightarrow> bind_err (heuristic neighbor target) (\<lambda>h. Inr (Some h)))
            (\<lambda>push.
               case push of
                 None \<Rightarrow> scan_neighbors heuristic wt target curnode dst rest s
               | Some h \<Rightarrow>
                   scan_neighbors heuristic wt target curnode dst rest
                     (s\<lparr>enqueued := (enqueued s)(neighbor \<mapsto> (ncost, h)),
                        queue := heappush (queue s)
                                   (float_add ncost h, counter s, neighbor, ncost, Some curnode),
                        counter := Suc (counter s)\<rparr>))))"

text \<open>The inner \<^verbatim>\<open>while node is not None\<close> loop that rebuilds the path.\<close>

partial_function (option) walk_back ::
  "(node \<rightharpoonup> node option) \<Rightarrow> node list \<Rightarrow> node option \<Rightarrow> (error + node list) option" where
  "walk_back expl path nd =
     (case nd of
        None \<Rightarrow> Some (Inr (rev path))
      | Some n \<Rightarrow>
          (case expl n of
             None \<Rightarrow> Some (Inl KeyError)
           | Some p \<Rightarrow> walk_back expl (path @ [n]) p))"

text \<open>
  The \<^verbatim>\<open>if curnode in explored\<close> block: does the iteration \<^verbatim>\<open>continue\<close>?
\<close>

definition already_done :: "search \<Rightarrow> node \<Rightarrow> fnum \<Rightarrow> error + bool" where
  "already_done s curnode dst =
     (case explored s curnode of
        None \<Rightarrow> Inr False
      | Some None \<Rightarrow> Inr True
      | Some (Some _) \<Rightarrow>
          (case enqueued s curnode of
             None \<Rightarrow> Inl KeyError
           | Some (qcost, h) \<Rightarrow> Inr (flt qcost dst)))"

text \<open>The \<^verbatim>\<open>while queue\<close> loop.  \<open>None\<close> is a search that never returns.\<close>

partial_function (option) astar_loop ::
  "graph \<Rightarrow> (node \<Rightarrow> node \<Rightarrow> error + fnum) \<Rightarrow> (node \<Rightarrow> node \<Rightarrow> pydict \<Rightarrow> weight) \<Rightarrow>
   node \<Rightarrow> search \<Rightarrow> (error + node list) option" where
  "astar_loop G heuristic wt target s =
     (if queue s = [] then Some (Inl NetworkXNoPath)
      else
        (case heappop (queue s) of
           ((_, _, curnode, dst, parent), q') \<Rightarrow>
             if curnode = target then walk_back (explored s) [curnode] parent
             else
               (case already_done s curnode dst of
                  Inl e \<Rightarrow> Some (Inl e)
                | Inr skip \<Rightarrow>
                    if skip then astar_loop G heuristic wt target (s\<lparr>queue := q'\<rparr>)
                    else
                      (case map_of (g_adj G) curnode of
                         None \<Rightarrow> Some (Inl KeyError)
                       | Some nbrs \<Rightarrow>
                           (case scan_neighbors heuristic wt target curnode dst nbrs
                                   (s\<lparr>queue := q',
                                      explored := (explored s)(curnode \<mapsto> parent)\<rparr>) of
                              Inl e \<Rightarrow> Some (Inl e)
                            | Inr s' \<Rightarrow> astar_loop G heuristic wt target s')))))"

definition astar_path ::
  "graph \<Rightarrow> node \<Rightarrow> node \<Rightarrow> (node \<Rightarrow> node \<Rightarrow> error + fnum) \<Rightarrow>
   (node \<Rightarrow> node \<Rightarrow> pydict \<Rightarrow> weight) \<Rightarrow> (error + node list) option" where
  "astar_path G source target heuristic wt =
     (if \<not> has_node G source then Some (Inl NodeNotFound)
      else if \<not> has_node G target then Some (Inl NodeNotFound)
      else astar_loop G heuristic wt target
             \<lparr>counter = 1, queue = [(Fin 0, 0, source, Fin 0, None)],
              enqueued = Map.empty, explored = Map.empty\<rparr>)"

section \<open>The program's entry points\<close>

text \<open>
  What a call can change: the graph object it was given and the lines printed.
\<close>

record world =
  the_graph :: graph
  stdout :: "string list"

text \<open>
  \<^verbatim>\<open>
  def wheelchairPath(origin, endpoint, G):
      try:
          path = nx.astar_path(G, origin, endpoint,
                               heuristic=lambda u, v: euclidianDistNode(u, v, G),
                               weight=costWheelchair)
          return path
      except nx.NetworkXNoPath:
          print("No path found that is wheelchair accessible.")
          return []
  \<close>
  Any other exception leaves the function.
\<close>

definition wheelchairPath ::
  "node \<Rightarrow> node \<Rightarrow> world \<Rightarrow> ((error + node list) \<times> world) option" where
  "wheelchairPath origin endpoint w =
     (case astar_path (the_graph w) origin endpoint
             (\<lambda>u v. euclidianDistNode u v (the_graph w)) costWheelchair of
        None \<Rightarrow> None
      | Some (Inr path) \<Rightarrow> Some (Inr path, w)
      | Some (Inl e) \<Rightarrow>
          if e = NetworkXNoPath
          then Some (Inr [],
                 w\<lparr>stdout := stdout w @ [''No path found that is wheelchair accessible.'']\<rparr>)
          else Some (Inl e, w))"

text \<open>
  \<^verbatim>\<open>
  def pathFromCoords(x1, y1, x2, y2, G):
      origin = ox.distance.nearest_nodes(G, y1, x1)
      destination = ox.distance.nearest_nodes(G, y1, x1)
      path = wheelchairPath(origin, destination, G)
      return path
  \<close>
  osmnx's nearest-node lookup is a parameter: a function of the graph and the two
  coordinates that returns a node or raises.
\<close>

definition pathFromCoords ::
  "(graph \<Rightarrow> real \<Rightarrow> real \<Rightarrow> error + node) \<Rightarrow> real \<Rightarrow> real \<Rightarrow> real \<Rightarrow> real \<Rightarrow> world \<Rightarrow>
   ((error + node list) \<times> world) option" where
  "pathFromCoords nearest_nodes x1 y1 x2 y2 w =
     (case nearest_nodes (the_graph w) y1 x1 of
        Inl e \<Rightarrow> Some (Inl e, w)
      | Inr origin \<Rightarrow>
          (case nearest_nodes (the_graph w) y1 x1 of
             Inl e \<Rightarrow> Some (Inl e, w)
           | Inr destination \<Rightarrow> wheelchairPath origin destination w))"

section \<open>The same code over a store\<close>

text \<open>
  In Python the graph is one object, which the search, the cost function and the
  heuristic all hold by reference, and any of them could assign to it.  To say that
  none does, the same statements are written once more with the world (the graph
  and the printed output) passed through every step: each function takes the world
  and returns the world it leaves behind.  The \<^verbatim>\<open>data\<close> argument of the cost function
  is the dict object \<^verbatim>\<open>G._adj[u][v]\<close> itself, here the pair \<open>(u, v)\<close> that locates it
  in the graph.  The queue and the two dicts of the search are objects of the call
  and not part of the world.
\<close>

type_synonym ref = "node \<times> node"

definition deref :: "graph \<Rightarrow> ref \<Rightarrow> pydict" where
  "deref G r =
     (case map_of (g_adj G) (fst r) of
        None \<Rightarrow> []
      | Some nbrs \<Rightarrow> (case map_of nbrs (snd r) of None \<Rightarrow> [] | Some d \<Rightarrow> d))"

text \<open>The reads the program performs on the graph.\<close>

text \<open>\<^verbatim>\<open>n in G\<close>\<close>

definition read_contains :: "node \<Rightarrow> world \<Rightarrow> bool \<times> world" where
  "read_contains n w = (has_node (the_graph w) n, w)"

text \<open>\<^verbatim>\<open>G._adj[n].items()\<close>\<close>

definition read_items :: "node \<Rightarrow> world \<Rightarrow> (error + (node \<times> pydict) list) \<times> world" where
  "read_items n w =
     ((case map_of (g_adj (the_graph w)) n of None \<Rightarrow> Inl KeyError | Some nbrs \<Rightarrow> Inr nbrs), w)"

text \<open>\<^verbatim>\<open>G.nodes[u][k]\<close>\<close>

definition read_attr :: "node \<Rightarrow> string \<Rightarrow> world \<Rightarrow> (error + pyval) \<times> world" where
  "read_attr u k w = (node_attr (the_graph w) u k, w)"

text \<open>\<^verbatim>\<open>data.get(k, default)\<close>\<close>

definition read_get :: "ref \<Rightarrow> pykey \<Rightarrow> pyval \<Rightarrow> world \<Rightarrow> pyval \<times> world" where
  "read_get data k dflt w = (py_get (deref (the_graph w) data) k dflt, w)"

text \<open>\<^verbatim>\<open>print(line)\<close>\<close>

definition print_line :: "string \<Rightarrow> world \<Rightarrow> world" where
  "print_line line w = w\<lparr>stdout := stdout w @ [line]\<rparr>"

definition then_st ::
  "(world \<Rightarrow> (error + 'a) \<times> world) \<Rightarrow> ('a \<Rightarrow> world \<Rightarrow> (error + 'b) \<times> world) \<Rightarrow>
   world \<Rightarrow> (error + 'b) \<times> world" where
  "then_st m f w = (case m w of (Inl e, w1) \<Rightarrow> (Inl e, w1) | (Inr a, w1) \<Rightarrow> f a w1)"

text \<open>\<^verbatim>\<open>costWheelchair(u, v, data)\<close>\<close>

definition costWheelchair_st :: "node \<Rightarrow> node \<Rightarrow> ref \<Rightarrow> world \<Rightarrow> weight \<times> world" where
  "costWheelchair_st u v data w =
     (case read_get data (KStr ''wheelchair'') VNone w of
        (a, w1) \<Rightarrow>
          if a = VStr ''yes''
          then (case read_get data (KStr ''length'') (VNum 1) w1 of (l, w2) \<Rightarrow> (Attr l, w2))
          else (FloatInf, w1))"

text \<open>\<^verbatim>\<open>euclidianDistNode(u, v, G)\<close>, with \<open>G\<close> the graph of the world.\<close>

definition euclidianDistNode_st :: "node \<Rightarrow> node \<Rightarrow> world \<Rightarrow> (error + fnum) \<times> world" where
  "euclidianDistNode_st u v =
     then_st (read_attr u ''x'') (\<lambda>x1.
     then_st (read_attr u ''y'') (\<lambda>y1.
     then_st (read_attr v ''x'') (\<lambda>x2.
     then_st (read_attr v ''y'') (\<lambda>y2 w.
       (distance x1 y1 x2 y2, w)))))"

text \<open>The search, with callbacks that are handed the world and hand it back.\<close>

definition enqueue :: "search \<Rightarrow> node \<Rightarrow> fnum \<Rightarrow> fnum \<Rightarrow> node \<Rightarrow> search" where
  "enqueue s neighbor ncost h curnode =
     s\<lparr>enqueued := (enqueued s)(neighbor \<mapsto> (ncost, h)),
       queue := heappush (queue s) (float_add ncost h, counter s, neighbor, ncost, Some curnode),
       counter := Suc (counter s)\<rparr>"

fun scan_neighbors_st ::
  "(node \<Rightarrow> node \<Rightarrow> world \<Rightarrow> (error + fnum) \<times> world) \<Rightarrow>
   (node \<Rightarrow> node \<Rightarrow> ref \<Rightarrow> world \<Rightarrow> weight \<times> world) \<Rightarrow>
   node \<Rightarrow> node \<Rightarrow> fnum \<Rightarrow> (node \<times> pydict) list \<Rightarrow> search \<Rightarrow> world \<Rightarrow>
   (error + search) \<times> world" where
  "scan_neighbors_st heuristic wt target curnode dst [] s w = (Inr s, w)"
| "scan_neighbors_st heuristic wt target curnode dst ((neighbor, kd) # rest) s w =
     (case wt curnode neighbor (curnode, neighbor) w of
        (cost, w1) \<Rightarrow>
          if cost = Attr VNone
          then scan_neighbors_st heuristic wt target curnode dst rest s w1
          else
            (case as_number cost of
               Inl e \<Rightarrow> (Inl e, w1)
             | Inr cost' \<Rightarrow>
                 (case enqueued s neighbor of
                    Some (qcost, h) \<Rightarrow>
                      if fle qcost (float_add dst cost')
                      then scan_neighbors_st heuristic wt target curnode dst rest s w1
                      else scan_neighbors_st heuristic wt target curnode dst rest
                             (enqueue s neighbor (float_add dst cost') h curnode) w1
                  | None \<Rightarrow>
                      (case heuristic neighbor target w1 of
                         (Inl e, w2) \<Rightarrow> (Inl e, w2)
                       | (Inr h, w2) \<Rightarrow>
                           scan_neighbors_st heuristic wt target curnode dst rest
                             (enqueue s neighbor (float_add dst cost') h curnode) w2))))"

partial_function (option) astar_loop_st ::
  "(node \<Rightarrow> node \<Rightarrow> world \<Rightarrow> (error + fnum) \<times> world) \<Rightarrow>
   (node \<Rightarrow> node \<Rightarrow> ref \<Rightarrow> world \<Rightarrow> weight \<times> world) \<Rightarrow>
   node \<Rightarrow> search \<Rightarrow> world \<Rightarrow> ((error + node list) \<times> world) option" where
  "astar_loop_st heuristic wt target s w =
     (if queue s = [] then Some (Inl NetworkXNoPath, w)
      else
        (case heappop (queue s) of
           ((_, _, curnode, dst, parent), q') \<Rightarrow>
             if curnode = target
             then map_option (\<lambda>r. (r, w)) (walk_back (explored s) [curnode] parent)
             else
               (case already_done s curnode dst of
                  Inl e \<Rightarrow> Some (Inl e, w)
                | Inr skip \<Rightarrow>
                    if skip then astar_loop_st heuristic wt target (s\<lparr>queue := q'\<rparr>) w
                    else
                      (case read_items curnode w of
                         (Inl e, w1) \<Rightarrow> Some (Inl e, w1)
                       | (Inr nbrs, w1) \<Rightarrow>
                           (case scan_neighbors_st heuristic wt target curnode dst nbrs
                                   (s\<lparr>queue := q',
                                      explored := (explored s)(curnode \<mapsto> parent)\<rparr>) w1 of
                              (Inl e, w2) \<Rightarrow> Some (Inl e, w2)
                            | (Inr s', w2) \<Rightarrow> astar_loop_st heuristic wt target s' w2)))))"

definition astar_path_st ::
  "node \<Rightarrow> node \<Rightarrow> (node \<Rightarrow> node \<Rightarrow> world \<Rightarrow> (error + fnum) \<times> world) \<Rightarrow>
   (node \<Rightarrow> node \<Rightarrow> ref \<Rightarrow> world \<Rightarrow> weight \<times> world) \<Rightarrow>
   world \<Rightarrow> ((error + node list) \<times> world) option" where
  "astar_path_st source target heuristic wt w =
     (case read_contains source w of
        (in_s, w1) \<Rightarrow>
          if \<not> in_s then Some (Inl NodeNotFound, w1)
          else
            (case read_contains target w1 of
               (in_t, w2) \<Rightarrow>
                 if \<not> in_t then Some (Inl NodeNotFound, w2)
                 else astar_loop_st heuristic wt target
                        \<lparr>counter = 1, queue = [(Fin 0, 0, source, Fin 0, None)],
                         enqueued = Map.empty, explored = Map.empty\<rparr> w2))"

definition wheelchairPath_st ::
  "node \<Rightarrow> node \<Rightarrow> world \<Rightarrow> ((error + node list) \<times> world) option" where
  "wheelchairPath_st origin endpoint w =
     (case astar_path_st origin endpoint euclidianDistNode_st costWheelchair_st w of
        None \<Rightarrow> None
      | Some (Inr path, w1) \<Rightarrow> Some (Inr path, w1)
      | Some (Inl e, w1) \<Rightarrow>
          if e = NetworkXNoPath
          then Some (Inr [], print_line ''No path found that is wheelchair accessible.'' w1)
          else Some (Inl e, w1))"

text \<open>
  An association list stands for a dict: no successor is listed twice in the
  adjacency of a node.
\<close>

definition dict_like :: "graph \<Rightarrow> bool" where
  "dict_like G = (\<forall>(u, nbrs) \<in> set (g_adj G). distinct (map fst nbrs))"

text \<open>A step that leaves the graph of the world as it found it.\<close>

definition keeps_graph :: "(world \<Rightarrow> 'a \<times> world) \<Rightarrow> bool" where
  "keeps_graph f = (\<forall>w. the_graph (snd (f w)) = the_graph w)"

section \<open>Edges, walks and their cost\<close>

text \<open>
  The edges of the graph with their attribute dicts: every parallel edge of every
  adjacency entry.
\<close>

fun edge_attrs :: "pyval \<Rightarrow> pydict list" where
  "edge_attrs (VDict d) = [d]"
| "edge_attrs _ = []"

type_synonym edge = "node \<times> node \<times> pydict"

definition edges_of :: "graph \<Rightarrow> edge list" where
  "edges_of G =
     concat (map (\<lambda>(u, nbrs).
       concat (map (\<lambda>(v, keydict).
         concat (map (\<lambda>(k, a). map (\<lambda>d. (u, v, d)) (edge_attrs a)) keydict)) nbrs))
       (g_adj G))"

text \<open>A walk from \<open>u\<close> to \<open>v\<close>: consecutive edges of the graph.\<close>

fun walk :: "graph \<Rightarrow> node \<Rightarrow> edge list \<Rightarrow> node \<Rightarrow> bool" where
  "walk G u [] v = (u = v)"
| "walk G u ((a, b, d) # es) v = (a = u \<and> (a, b, d) \<in> set (edges_of G) \<and> walk G b es v)"

text \<open>The nodes a walk from \<open>u\<close> visits, in order.\<close>

fun walk_nodes :: "node \<Rightarrow> edge list \<Rightarrow> node list" where
  "walk_nodes u [] = [u]"
| "walk_nodes u ((a, b, d) # es) = u # walk_nodes b es"

text \<open>
  The cost of a walk under the cost function applied to each edge's attributes:
  the sum of the edge costs as real numbers, with no rounding, infinite as soon as
  one of them is.
\<close>

fun walk_cost :: "edge list \<Rightarrow> error + fnum" where
  "walk_cost [] = Inr (Fin 0)"
| "walk_cost ((a, b, d) # es) =
     bind_err (as_number (costWheelchair a b d)) (\<lambda>c.
     bind_err (walk_cost es) (\<lambda>rest. Inr (fadd c rest)))"

text \<open>The stored position of a node, when both coordinates are numbers.\<close>

definition node_pos :: "graph \<Rightarrow> node \<Rightarrow> (real \<times> real) option" where
  "node_pos G u =
     (case (node_attr G u ''x'', node_attr G u ''y'') of
        (Inr (VNum x), Inr (VNum y)) \<Rightarrow> Some (x, y)
      | _ \<Rightarrow> None)"

text \<open>
  The straight-line distance between two stored positions, as a real number.
\<close>

definition straight_line :: "real \<times> real \<Rightarrow> real \<times> real \<Rightarrow> real" where
  "straight_line p q = sqrt ((fst p - fst q)\<^sup>2 + (snd p - snd q)\<^sup>2)"

text \<open>
  A coordinate difference that is zero, or of a magnitude between \<open>2\<^sup>-\<^sup>5\<^sup>0\<^sup>0\<close> and
  \<open>2\<^sup>5\<^sup>0\<^sup>0\<close>: its square neither overflows nor underflows.
\<close>

definition moderate :: "real \<Rightarrow> bool" where
  "moderate d = (d = 0 \<or> (pw2 (- 500) \<le> \<bar>d\<bar> \<and> \<bar>d\<bar> \<le> pw2 500))"

section \<open>Small street maps\<close>

definition at_xy :: "real \<Rightarrow> real \<Rightarrow> pydict" where
  "at_xy x y = [(KStr ''x'', VNum x), (KStr ''y'', VNum y)]"

definition street :: "string \<Rightarrow> real \<Rightarrow> pydict" where
  "street wc len = [(KStr ''wheelchair'', VStr wc), (KStr ''length'', VNum len)]"

text \<open>Two nodes and one street from 1 to 2 that is not accessible.\<close>

definition blocked_map :: graph where
  "blocked_map =
     \<lparr>g_node = [(1, at_xy 0 0), (2, at_xy 3 4)],
      g_adj = [(1, [(2, [(KInt 0, VDict (street ''no'' 5))])]), (2, [])]\<rparr>"


text \<open>
  Three nodes on a line, all streets accessible: a direct street from 1 to 3 of
  length 10 (added first), and streets 1 to 2 and 2 to 3 of length 1 each.
\<close>

definition line_map :: graph where
  "line_map =
     \<lparr>g_node = [(1, at_xy 0 0), (2, at_xy 1 0), (3, at_xy 2 0)],
      g_adj = [(1, [(3, [(KInt 0, VDict (street ''yes'' 10))]),
                    (2, [(KInt 0, VDict (street ''yes'' 1))])]),
               (2, [(3, [(KInt 0, VDict (street ''yes'' 1))])]),
               (3, [])]\<rparr>"

text \<open>
  A chain 1 to 2 to 3 whose second street carries no wheelchair tag at all.
\<close>

definition untagged_map :: graph where
  "untagged_map =
     \<lparr>g_node = [(1, at_xy 0 0), (2, at_xy 1 0), (3, at_xy 2 0)],
      g_adj = [(1, [(2, [(KInt 0, VDict (street ''yes'' 1))])]),
               (2, [(3, [(KInt 0, VDict [(KStr ''length'', VNum 1)])])]),
               (3, [])]\<rparr>"

text \<open>Two nodes and no street between them.\<close>

definition split_map :: graph where
  "split_map =
     \<lparr>g_node = [(1, at_xy 0 0), (2, at_xy 3 4)],
      g_adj = [(1, []), (2, [])]\<rparr>"


text \<open>
  A street from 1 to 2 and a third node that no street reaches.
\<close>

definition dead_end_map :: graph where
  "dead_end_map =
     \<lparr>g_node = [(1, at_xy 0 0), (2, at_xy 1 0), (3, at_xy 2 0)],
      g_adj = [(1, [(2, [(KInt 0, VDict (street ''yes'' 1))])]), (2, []), (3, [])]\<rparr>"

section \<open>Facts about rounding\<close>

subsection \<open>Powers of two\<close>

lemma pw2_pos [simp]: "0 < pw2 k" by (simp add: pw2_def)
lemma pw2_nonneg [simp]: "0 \<le> pw2 k" by (simp add: pw2_def)
lemma pw2_not_le0 [simp]: "\<not> pw2 k \<le> 0" using pw2_pos [of k] by linarith
lemma pw2_ne0 [simp]: "pw2 k \<noteq> 0" using pw2_pos [of k] by linarith
lemma pw2_strict_mono: "j < k \<Longrightarrow> pw2 j < pw2 k"
  unfolding pw2_def by (rule powr_less_mono) simp_all
lemma pw2_add: "pw2 j * pw2 k = pw2 (j + k)" by (simp add: pw2_def powr_add)
lemma pw2_0: "pw2 0 = 1" by (simp add: pw2_def)
lemma pw2_nat: "pw2 (int n) = 2 ^ n" by (simp add: pw2_def powr_realpow)




lemma floor_log_less:
  assumes "x \<noteq> 0" and "\<bar>x\<bar> < pw2 k"
  shows "\<lfloor>log 2 \<bar>x\<bar>\<rfloor> < k"
proof -
  have "log 2 \<bar>x\<bar> < of_int k"
    using assms unfolding pw2_def by (subst log_less_iff) auto
  then show ?thesis by (simp only: floor_less_iff)
qed

subsection \<open>Rounding to the nearest double\<close>

lemma rhe_of_int [simp]: "round_half_even (of_int z) = z"
  by (simp add: round_half_even_def)



lemma nearest_double_0 [simp]: "nearest_double 0 = 0"
  by (simp add: nearest_double_def)



lemma nearest_double_exact:
  assumes "\<bar>m\<bar> < 2 ^ 53" and "- 1074 \<le> k"
  shows "nearest_double (of_int m * pw2 k) = of_int m * pw2 k"
proof (cases "m = 0")
  case True
  then show ?thesis by simp
next
  case False
  define x :: real where "x = of_int m * pw2 k"
  have x0: "x \<noteq> 0" using False by (simp add: x_def)
  have absx: "\<bar>x\<bar> = of_int \<bar>m\<bar> * pw2 k" by (simp add: x_def abs_mult)
  have "of_int \<bar>m\<bar> < (2::real) ^ 53"
    using assms(1) by (metis of_int_less_iff of_int_numeral of_int_power)
  then have "\<bar>x\<bar> < 2 ^ 53 * pw2 k" unfolding absx by (intro mult_strict_right_mono) auto
  also have "\<dots> = pw2 (53 + k)"
    unfolding pw2_add [symmetric] using pw2_nat [of 53] by simp
  finally have "\<lfloor>log 2 \<bar>x\<bar>\<rfloor> < 53 + k" by (rule floor_log_less [OF x0])
  with assms(2) have ek: "ulp_exponent x \<le> k" by (simp add: ulp_exponent_def)
  define e where "e = ulp_exponent x"
  define n where "n = nat (k - e)"
  have kn: "k = int n + e" using ek by (simp add: n_def e_def)
  have "pw2 k = 2 ^ n * pw2 e" unfolding kn pw2_add [symmetric] pw2_nat ..
  then have q: "x / pw2 e = of_int (m * 2 ^ n)" by (simp add: x_def)
  have "nearest_double x = of_int (round_half_even (x / pw2 e)) * pw2 e"
    using x0 by (simp add: nearest_double_def e_def)
  also have "\<dots> = of_int (m * 2 ^ n) * pw2 e"
    by (simp only: q rhe_of_int)
  also have "\<dots> = x" using q by (simp add: field_simps)
  finally show ?thesis by (simp add: x_def)
qed

lemma nearest_double_int:
  "\<bar>m\<bar> < 2 ^ 53 \<Longrightarrow> nearest_double (of_int m) = of_int m"
  using nearest_double_exact [of m 0] by (simp add: pw2_0)





subsection \<open>The four rounded steps of the distance\<close>






section \<open>Facts about the heuristic\<close>

lemma node_attr_pos:
  "node_pos G u = Some (x, y) \<Longrightarrow>
   node_attr G u ''x'' = Inr (VNum x) \<and> node_attr G u ''y'' = Inr (VNum y)"
  by (auto simp: node_pos_def split: sum.splits pyval.splits)

lemma euclid_distance:
  assumes "node_pos G u = Some (xu, yu)" and "node_pos G v = Some (xv, yv)"
  shows "euclidianDistNode u v G = distance (VNum xu) (VNum yu) (VNum xv) (VNum yv)"
  using node_attr_pos [OF assms(1)] node_attr_pos [OF assms(2)]
  by (simp add: euclidianDistNode_def bind_err_def)

lemma pw2_1024_gt: "x \<le> pw2 k \<Longrightarrow> k < 1024 \<Longrightarrow> \<not> pw2 1024 \<le> x"
proof -
  assume a: "x \<le> pw2 k" "k < 1024"
  have "pw2 k < pw2 1024" using a(2) by (rule pw2_strict_mono)
  with a(1) show ?thesis by linarith
qed

lemma to_float_finite:
  assumes "\<bar>nearest_double r\<bar> \<le> pw2 k" and "k < 1024"
  shows "to_float r = Fl (nearest_double r)"
proof -
  have "pw2 k < pw2 1024" using assms(2) by (rule pw2_strict_mono)
  with assms(1) have "\<not> pw2 1024 \<le> nearest_double r" "\<not> nearest_double r \<le> - pw2 1024"
    by linarith+
  then show ?thesis by (simp add: to_float_def)
qed



text \<open>Integer coordinates whose distance is an integer: every step is exact.\<close>

lemma of_int_small:
  fixes m :: int
  assumes "\<bar>m\<bar> < 2 ^ 53"
  shows "nearest_double (of_int m) = of_int m" "\<bar>of_int m :: real\<bar> \<le> pw2 53"
proof -
  show "nearest_double (of_int m) = of_int m" using assms by (rule nearest_double_int)
  have "\<bar>of_int m :: real\<bar> = of_int \<bar>m\<bar>" by simp
  also have "\<dots> \<le> 2 ^ 53" using assms by (metis less_imp_le of_int_le_iff of_int_numeral of_int_power)
  finally show "\<bar>of_int m :: real\<bar> \<le> pw2 53" using pw2_nat [of 53] by simp
qed

lemma distance_integral:
  fixes a b c d r :: int
  assumes "\<bar>a - c\<bar> < 2 ^ 26" and "\<bar>b - d\<bar> < 2 ^ 26"
    and "(a - c)\<^sup>2 + (b - d)\<^sup>2 = r\<^sup>2" and "0 \<le> r"
  shows "distance (VNum (of_int a)) (VNum (of_int b)) (VNum (of_int c)) (VNum (of_int d))
         = Inr (Fin (of_int r))"
proof -
  define m where "m = a - c"
  define n where "n = b - d"
  have m26: "\<bar>m\<bar> < 2 ^ 26" and n26: "\<bar>n\<bar> < 2 ^ 26" using assms by (simp_all add: m_def n_def)
  have sq_bound: "k * k < 2 ^ 52" if "\<bar>k\<bar> < 2 ^ 26" for k :: int
  proof -
    have "k * k = \<bar>k\<bar> * \<bar>k\<bar>" by (simp flip: abs_mult)
    also have "\<dots> < 2 ^ 26 * 2 ^ 26" using that
      by (intro mult_strict_mono) simp_all
    finally show ?thesis by simp
  qed
  have mm: "m * m < 2 ^ 52" "0 \<le> m * m" and nn: "n * n < 2 ^ 52" "0 \<le> n * n"
    using sq_bound [OF m26] sq_bound [OF n26] by simp_all
  have rr: "m * m + n * n = r * r" using assms(3) by (simp add: m_def n_def power2_eq_square)
  have r53: "\<bar>r\<bar> < 2 ^ 53"
  proof (rule ccontr)
    assume "\<not> \<bar>r\<bar> < 2 ^ 53"
    with assms(4) have "2 ^ 53 \<le> r" by simp
    then have "2 ^ 53 * 2 ^ 53 \<le> r * r" by (intro mult_mono) simp_all
    with rr mm nn show False by simp
  qed
  have s1: "\<bar>m\<bar> < 2 ^ 53" "\<bar>n\<bar> < 2 ^ 53" using m26 n26 by simp_all
  have s2: "\<bar>m * m\<bar> < 2 ^ 53" "\<bar>n * n\<bar> < 2 ^ 53" "\<bar>m * m + n * n\<bar> < 2 ^ 53"
    using mm nn by simp_all
  have fm: "to_float (of_int m) = Fl (of_int m)"
    using to_float_finite [of "of_int m" 53] of_int_small [OF s1(1)] by simp
  have fn: "to_float (of_int n) = Fl (of_int n)"
    using to_float_finite [of "of_int n" 53] of_int_small [OF s1(2)] by simp
  have pm: "float_sq (Fl (of_int m)) = Inr (Fin (of_int (m * m)))"
    using of_int_small [OF s2(1)] pw2_1024_gt [of "of_int (m * m)" 53] by simp
  have pn: "float_sq (Fl (of_int n)) = Inr (Fin (of_int (n * n)))"
    using of_int_small [OF s2(2)] pw2_1024_gt [of "of_int (n * n)" 53] by simp
  have ad: "float_add (Fin (of_int (m * m))) (Fin (of_int (n * n))) = Fin (of_int (r * r))"
  proof -
    have "(of_int (m * m) :: real) + of_int (n * n) = of_int (r * r)"
      using rr by (simp flip: of_int_add of_int_mult)
    moreover have "\<bar>r * r\<bar> < 2 ^ 53" using s2(3) rr by simp
    note of_int_small [OF this]
    moreover from this(2) have "\<not> pw2 1024 \<le> (of_int (r * r) :: real)"
      using pw2_1024_gt [of "of_int (r * r)" 53] by simp
    ultimately show ?thesis by (simp del: of_int_mult)
  qed
  have "sqrt (of_int (r * r)) = (of_int r :: real)" using assms(4) by simp
  then have sq: "float_sqrt (Fin (of_int (r * r))) = Inr (Fin (of_int r))"
    using of_int_small [OF r53] by simp
  note steps = pm [unfolded of_int_mult] pn [unfolded of_int_mult]
    ad [unfolded of_int_mult] sq [unfolded of_int_mult]
  show ?thesis
    by (simp add: distance_def bind_err_def fm fn steps
          del: float_sq.simps float_add.simps float_sqrt.simps flip: m_def n_def of_int_diff)
qed

section \<open>Auxiliary facts\<close>

lemma street_cost: "costWheelchair u v (street ''yes'' l) = Attr (VNum l)"
  by (simp add: costWheelchair_def py_get_def street_def)

text \<open>
  What the search sees.  The weight callable is applied to the dict of parallel
  edges; its values are attribute dicts, so the lookup of \<^verbatim>\<open>"wheelchair"\<close> in it
  never yields the string \<^verbatim>\<open>"yes"\<close>.
\<close>

lemma cost_of_parallel_edges:
  assumes "\<forall>(k, a) \<in> set data. \<exists>d. a = VDict d"
  shows "costWheelchair u v data = FloatInf"
proof -
  have "py_get data (KStr ''wheelchair'') VNone \<noteq> VStr ''yes''"
  proof (cases "map_of data (KStr ''wheelchair'')")
    case None
    then show ?thesis by (simp add: py_get_def)
  next
    case (Some a)
    then have "(KStr ''wheelchair'', a) \<in> set data" by (rule map_of_SomeD)
    with assms obtain d where "a = VDict d" by auto
    with Some show ?thesis by (simp add: py_get_def)
  qed
  then show ?thesis by (simp add: costWheelchair_def)
qed

lemma cost_of_keydict: "costWheelchair u v [(KInt k, VDict d)] = FloatInf"
  by (rule cost_of_parallel_edges) simp

lemmas run_simps =
  heappop_def heappush_def already_done_def bind_err_def cost_of_keydict

subsection \<open>The straight line and the triangle inequality\<close>


lemma straight_line_same [simp]: "straight_line p p = 0"
  by (simp add: straight_line_def)

lemma straight_line_nonneg [simp]: "0 \<le> straight_line p q"
  by (simp add: straight_line_def)

subsection \<open>Finite walk costs\<close>





subsection \<open>First steps of the library search\<close>

lemma astar_path_same:
  "has_node G n \<Longrightarrow> astar_path G n n heuristic wt = Some (Inr [n])"
  unfolding astar_path_def
  apply simp
  apply (subst astar_loop.simps)
  apply (simp add: heappop_def)
  apply (subst walk_back.simps)
  apply simp
  done

lemma astar_path_absent:
  "\<not> has_node G source \<or> \<not> has_node G target \<Longrightarrow>
   astar_path G source target heuristic wt = Some (Inl NodeNotFound)"
  by (auto simp: astar_path_def)

subsection \<open>The example maps\<close>

lemma euclid_integral:
  fixes a b c d r :: int
  assumes "node_pos G u = Some (of_int a, of_int b)" and "node_pos G v = Some (of_int c, of_int d)"
    and "\<bar>a - c\<bar> < 2 ^ 26" and "\<bar>b - d\<bar> < 2 ^ 26"
    and "(a - c)\<^sup>2 + (b - d)\<^sup>2 = r\<^sup>2" and "0 \<le> r"
  shows "euclidianDistNode u v G = Inr (Fin (of_int r))"
  unfolding euclid_distance [OF assms(1,2)] using assms(3-) by (rule distance_integral)


lemma moderate_0 [simp]: "moderate 0"
  by (simp add: moderate_def)

lemma blocked_pos:
  "node_pos blocked_map 1 = Some (0, 0)" "node_pos blocked_map 2 = Some (3, 4)"
  by (simp_all add: node_pos_def node_attr_def blocked_map_def at_xy_def)


lemma line_pos:
  "node_pos line_map 1 = Some (0, 0)" "node_pos line_map 2 = Some (1, 0)"
  "node_pos line_map 3 = Some (2, 0)"
  by (simp_all add: node_pos_def node_attr_def line_map_def at_xy_def)

lemma untagged_pos:
  "node_pos untagged_map 1 = Some (0, 0)" "node_pos untagged_map 2 = Some (1, 0)"
  "node_pos untagged_map 3 = Some (2, 0)"
  by (simp_all add: node_pos_def node_attr_def untagged_map_def at_xy_def)

lemma dead_end_pos:
  "node_pos dead_end_map 1 = Some (0, 0)" "node_pos dead_end_map 2 = Some (1, 0)"
  "node_pos dead_end_map 3 = Some (2, 0)"
  by (simp_all add: node_pos_def node_attr_def dead_end_map_def at_xy_def)


lemma blocked_dist:
  "euclidianDistNode 2 2 blocked_map = Inr (Fin 0)"
  "euclidianDistNode 1 2 blocked_map = Inr (Fin 5)"
  using euclid_integral [of blocked_map 2 3 4 2 3 4 0] euclid_integral [of blocked_map 1 0 0 2 3 4 5]
  by (simp_all add: blocked_pos)


lemma line_dist:
  "euclidianDistNode 1 3 line_map = Inr (Fin 2)"
  "euclidianDistNode 1 2 line_map = Inr (Fin 1)"
  "euclidianDistNode 2 3 line_map = Inr (Fin 1)"
  "euclidianDistNode 3 3 line_map = Inr (Fin 0)"
  using euclid_integral [of line_map 1 0 0 3 2 0 2] euclid_integral [of line_map 1 0 0 2 1 0 1]
    euclid_integral [of line_map 2 1 0 3 2 0 1] euclid_integral [of line_map 3 2 0 3 2 0 0]
  by (simp_all add: line_pos)

lemma untagged_dist:
  "euclidianDistNode 2 3 untagged_map = Inr (Fin 1)"
  "euclidianDistNode 3 3 untagged_map = Inr (Fin 0)"
  using euclid_integral [of untagged_map 2 1 0 3 2 0 1]
    euclid_integral [of untagged_map 3 2 0 3 2 0 0]
  by (simp_all add: untagged_pos)

lemma dead_end_dist: "euclidianDistNode 2 3 dead_end_map = Inr (Fin 1)"
  using euclid_integral [of dead_end_map 2 1 0 3 2 0 1] by (simp add: dead_end_pos)

lemma line_edges:
  "edges_of line_map =
     [(1, 3, street ''yes'' 10), (1, 2, street ''yes'' 1), (2, 3, street ''yes'' 1)]"
  by (simp add: edges_of_def line_map_def)

lemma map_nodes:
  "has_node blocked_map 1" "has_node blocked_map 2" "\<not> has_node blocked_map 7"
  "has_node line_map 1" "has_node line_map 3"
  "has_node untagged_map 1" "has_node untagged_map 3"
  "has_node split_map 1" "has_node split_map 2"
  "has_node dead_end_map 1" "has_node dead_end_map 3"
  by (simp_all add: has_node_def blocked_map_def line_map_def untagged_map_def split_map_def
        dead_end_map_def)

lemma map_adj:
  "g_adj blocked_map = [(1, [(2, [(KInt 0, VDict (street ''no'' 5))])]), (2, [])]"
  "g_adj line_map = [(1, [(3, [(KInt 0, VDict (street ''yes'' 10))]),
                          (2, [(KInt 0, VDict (street ''yes'' 1))])]),
                     (2, [(3, [(KInt 0, VDict (street ''yes'' 1))])]),
                     (3, [])]"
  "g_adj untagged_map = [(1, [(2, [(KInt 0, VDict (street ''yes'' 1))])]),
                         (2, [(3, [(KInt 0, VDict [(KStr ''length'', VNum 1)])])]),
                         (3, [])]"
  "g_adj split_map = [(1, []), (2, [])]"
  "g_adj dead_end_map = [(1, [(2, [(KInt 0, VDict (street ''yes'' 1))])]), (2, []), (3, [])]"
  by (simp_all add: blocked_map_def line_map_def untagged_map_def split_map_def dead_end_map_def)

text \<open>The library search on the example maps.\<close>

lemma blocked_search:
  "astar_path blocked_map 1 2 (\<lambda>u v. euclidianDistNode u v blocked_map) costWheelchair
     = Some (Inr [1, 2])"
  apply (simp add: astar_path_def map_nodes)
  apply (subst astar_loop.simps)
  apply (simp add: run_simps map_adj blocked_dist)
  apply (subst astar_loop.simps)
  apply (simp add: run_simps)
  apply (subst walk_back.simps, simp)+
  done

lemma line_search:
  "astar_path line_map 1 3 (\<lambda>u v. euclidianDistNode u v line_map) costWheelchair
     = Some (Inr [1, 3])"
  apply (simp add: astar_path_def map_nodes)
  apply (subst astar_loop.simps)
  apply (simp add: run_simps map_adj line_dist)
  apply (subst astar_loop.simps)
  apply (simp add: run_simps)
  apply (subst walk_back.simps, simp)+
  done

lemma untagged_search:
  "astar_path untagged_map 1 3 (\<lambda>u v. euclidianDistNode u v untagged_map) costWheelchair
     = Some (Inr [1, 2, 3])"
  apply (simp add: astar_path_def map_nodes)
  apply (subst astar_loop.simps)
  apply (simp add: run_simps map_adj untagged_dist)
  apply (subst astar_loop.simps)
  apply (simp add: run_simps map_adj untagged_dist)
  apply (subst astar_loop.simps)
  apply (simp add: run_simps)
  apply (subst walk_back.simps, simp)+
  done

lemma split_search:
  "astar_path split_map 1 2 (\<lambda>u v. euclidianDistNode u v split_map) costWheelchair
     = Some (Inl NetworkXNoPath)"
  apply (simp add: astar_path_def map_nodes)
  apply (subst astar_loop.simps)
  apply (simp add: run_simps map_adj)
  apply (subst astar_loop.simps)
  apply (simp add: run_simps)
  done

lemma dead_end_search:
  "astar_path dead_end_map 1 3 (\<lambda>u v. euclidianDistNode u v dead_end_map) costWheelchair
     = Some (Inl NetworkXNoPath)"
  apply (simp add: astar_path_def map_nodes)
  apply (subst astar_loop.simps)
  apply (simp add: run_simps map_adj dead_end_dist)
  apply (subst astar_loop.simps)
  apply (simp add: run_simps map_adj)
  apply (subst astar_loop.simps)
  apply (simp add: run_simps)
  done

text \<open>
  With no street at all the library search runs out of queue, and the program prints
  its message and returns the empty list.
\<close>

lemma no_street_no_path:
  "wheelchairPath 1 2 \<lparr>the_graph = split_map, stdout = []\<rparr>
     = Some (Inr [], \<lparr>the_graph = split_map,
                      stdout = [''No path found that is wheelchair accessible.'']\<rparr>)"
  by (simp add: wheelchairPath_def split_search)

text \<open>
  The same at a dead end: the street from 1 to 2 is examined, with the cost function
  and the heuristic called on it, and node 3 is never reached.
\<close>

lemma dead_end_no_path:
  "wheelchairPath 1 3 \<lparr>the_graph = dead_end_map, stdout = []\<rparr>
     = Some (Inr [], \<lparr>the_graph = dead_end_map,
                      stdout = [''No path found that is wheelchair accessible.'']\<rparr>)"
  by (simp add: wheelchairPath_def dead_end_search)

lemma dead_end_dict_like: "dict_like dead_end_map"
  by (simp add: dict_like_def map_adj)

section \<open>Facts about the store\<close>

subsection \<open>The callbacks only read\<close>

lemma costWheelchair_st_value:
  "costWheelchair_st u v data w = (costWheelchair u v (deref (the_graph w) data), w)"
  by (simp add: costWheelchair_st_def read_get_def costWheelchair_def)

lemma euclidianDistNode_st_value:
  "euclidianDistNode_st u v w = (euclidianDistNode u v (the_graph w), w)"
  by (simp add: euclidianDistNode_st_def then_st_def read_attr_def euclidianDistNode_def
        bind_err_def split: sum.splits)

subsection \<open>A search whose callbacks keep the graph keeps the graph\<close>

lemma keeps_graphD: "keeps_graph f \<Longrightarrow> f w = (a, w') \<Longrightarrow> the_graph w' = the_graph w"
  unfolding keeps_graph_def by (metis snd_conv)

lemma scan_neighbors_st_frame:
  assumes h: "\<And>a b. keeps_graph (heuristic a b)" and c: "\<And>a b r. keeps_graph (wt a b r)"
  shows "scan_neighbors_st heuristic wt target curnode dst nbrs s w = (r, w') \<Longrightarrow>
         the_graph w' = the_graph w"
proof (induction nbrs arbitrary: s w)
  case Nil
  then show ?case by simp
next
  case (Cons nb rest)
  obtain neighbor kd where nb: "nb = (neighbor, kd)" by (cases nb)
  obtain cost w1 where wt: "wt curnode neighbor (curnode, neighbor) w = (cost, w1)"
    by (cases "wt curnode neighbor (curnode, neighbor) w")
  have w1: "the_graph w1 = the_graph w" using keeps_graphD [OF c wt] .
  show ?case
  proof (cases "cost = Attr VNone")
    case True
    with Cons.prems nb wt have "scan_neighbors_st heuristic wt target curnode dst rest s w1 = (r, w')"
      by simp
    from Cons.IH [OF this] w1 show ?thesis by simp
  next
    case False
    show ?thesis
    proof (cases "as_number cost")
      case (Inl e)
      with Cons.prems nb wt False w1 show ?thesis by simp
    next
      case (Inr cost')
      show ?thesis
      proof (cases "enqueued s neighbor")
        case (Some qh)
        obtain qcost h0 where qh: "qh = (qcost, h0)" by (cases qh)
        from Cons.prems nb wt False Inr Some qh
        obtain s1 where "scan_neighbors_st heuristic wt target curnode dst rest s1 w1 = (r, w')"
          by (auto split: if_splits)
        from Cons.IH [OF this] w1 show ?thesis by simp
      next
        case None
        obtain hr w2 where hv: "heuristic neighbor target w1 = (hr, w2)"
          by (cases "heuristic neighbor target w1")
        have w2: "the_graph w2 = the_graph w1" using keeps_graphD [OF h hv] .
        show ?thesis
        proof (cases hr)
          case (Inl e)
          with Cons.prems nb wt False Inr None hv w1 w2 show ?thesis by simp
        next
          case (Inr hval)
          with Cons.prems nb wt False \<open>as_number cost = Inr cost'\<close> None hv
          obtain s1 where "scan_neighbors_st heuristic wt target curnode dst rest s1 w2 = (r, w')"
            by auto
          from Cons.IH [OF this] w1 w2 show ?thesis by simp
        qed
      qed
    qed
  qed
qed

lemma astar_loop_st_frame_aux:
  "astar_loop_st heuristic wt target s w = Some y \<Longrightarrow>
   (\<forall>a b. keeps_graph (heuristic a b)) \<longrightarrow> (\<forall>a b r. keeps_graph (wt a b r)) \<longrightarrow>
   the_graph (snd y) = the_graph w"
  apply (erule astar_loop_st.raw_induct [rotated])
  subgoal premises prems for loop heuristic wt target s w y
  proof (intro impI)
    note IH = prems(1) and body = prems(2)
    assume h: "\<forall>a b. keeps_graph (heuristic a b)" and c: "\<forall>a b r. keeps_graph (wt a b r)"
    show "the_graph (snd y) = the_graph w"
    proof (cases "queue s = []")
      case True
      with body show ?thesis by auto
    next
      case False
      obtain p k curnode dst parent q' where
        pop: "heappop (queue s) = ((p, k, curnode, dst, parent), q')"
        by (metis prod_cases5 surj_pair)
      show ?thesis
      proof (cases "curnode = target")
        case True
        with body False pop show ?thesis by auto
      next
        case ne: False
        show ?thesis
        proof (cases "already_done s curnode dst")
          case (Inl e)
          with body False pop ne show ?thesis by auto
        next
          case (Inr skip)
          show ?thesis
          proof (cases skip)
            case True
            with body False pop ne Inr
            have "loop heuristic wt target (s\<lparr>queue := q'\<rparr>) w = Some y"
              by simp
            from IH [OF this] h c show ?thesis by simp
          next
            case nskip: False
            show ?thesis
            proof (cases "map_of (g_adj (the_graph w)) curnode")
              case None
              with body False pop ne Inr nskip show ?thesis by (auto simp: read_items_def)
            next
              case (Some nbrs)
              obtain sr w2 where sc:
                "scan_neighbors_st heuristic wt target curnode dst nbrs
                   (s\<lparr>queue := q', explored := (explored s)(curnode \<mapsto> parent)\<rparr>) w = (sr, w2)"
                by (metis surj_pair)
              have w2: "the_graph w2 = the_graph w"
                using scan_neighbors_st_frame [OF _ _ sc] h c by simp
              show ?thesis
              proof (cases sr)
                case (Inl e)
                with body False pop ne Inr nskip Some sc w2 show ?thesis
                  by (auto simp: read_items_def)
              next
                case (Inr s')
                with body False pop ne \<open>already_done s curnode dst = Inr skip\<close> nskip Some sc
                have "loop heuristic wt target s' w2 = Some y"
                  by (simp add: read_items_def)
                from IH [OF this] h c w2 show ?thesis by simp
              qed
            qed
          qed
        qed
      qed
    qed
  qed
  done

lemma astar_loop_st_frame:
  assumes "astar_loop_st heuristic wt target s w = Some y"
    and "\<forall>a b. keeps_graph (heuristic a b)" and "\<forall>a b r. keeps_graph (wt a b r)"
  shows "the_graph (snd y) = the_graph w"
  using astar_loop_st_frame_aux [OF assms(1)] assms(2,3) by simp

lemma astar_path_st_frame:
  assumes "astar_path_st source target heuristic wt w = Some y"
    and "\<forall>a b. keeps_graph (heuristic a b)" and "\<forall>a b r. keeps_graph (wt a b r)"
  shows "the_graph (snd y) = the_graph w"
proof (cases "has_node (the_graph w) source \<and> has_node (the_graph w) target")
  case True
  with assms(1) have "astar_loop_st heuristic wt target
       \<lparr>counter = 1, queue = [(Fin 0, 0, source, Fin 0, None)],
        enqueued = Map.empty, explored = Map.empty\<rparr> w = Some y"
    by (simp add: astar_path_st_def read_contains_def)
  from astar_loop_st_frame [OF this assms(2,3)] show ?thesis .
next
  case False
  with assms(1) show ?thesis
    by (auto simp: astar_path_st_def read_contains_def split: if_splits)
qed

lemma callbacks_keep_graph:
  "keeps_graph (euclidianDistNode_st a b)" "keeps_graph (costWheelchair_st a b r)"
  by (simp_all add: keeps_graph_def euclidianDistNode_st_value costWheelchair_st_value)

subsection \<open>The two readings of the code agree\<close>

lemma deref_item:
  assumes "dict_like G" and "map_of (g_adj G) cur = Some nbrs" and "(n, kd) \<in> set nbrs"
  shows "deref G (cur, n) = kd"
proof -
  from assms(2) have "(cur, nbrs) \<in> set (g_adj G)" by (rule map_of_SomeD)
  with assms(1) have "distinct (map fst nbrs)" by (auto simp: dict_like_def)
  from map_of_is_SomeI [OF this assms(3)] assms(2) show ?thesis by (simp add: deref_def)
qed

lemma scan_neighbors_st_value_gen:
  assumes hs: "\<And>a b w. hst a b w = (hv a b (the_graph w), w)"
    and cs: "\<And>a b r w. cst a b r w = (cv a b (deref (the_graph w) r), w)"
    and items: "\<And>n kd. (n, kd) \<in> set nbrs \<Longrightarrow> deref (the_graph w) (cur, n) = kd"
  shows "scan_neighbors_st hst cst t cur dst nbrs s w
         = (scan_neighbors (\<lambda>u v. hv u v (the_graph w)) cv t cur dst nbrs s, w)"
  using items
proof (induction nbrs arbitrary: s)
  case Nil
  then show ?case by simp
next
  case (Cons nb rest)
  obtain n kd where nb: "nb = (n, kd)" by (cases nb)
  have d: "deref (the_graph w) (cur, n) = kd" using Cons.prems nb by simp
  have IH: "scan_neighbors_st hst cst t cur dst rest s' w
         = (scan_neighbors (\<lambda>u v. hv u v (the_graph w)) cv t cur dst rest s', w)" for s'
    using Cons.IH Cons.prems by simp
  have c1: "cst cur n (cur, n) w = (cv cur n kd, w)" using cs [of cur n "(cur, n)" w] d by simp
  have h1: "hst n t w = (hv n t (the_graph w), w)" by (rule hs)
  show ?case
    unfolding nb
    by (simp add: c1 h1 IH enqueue_def bind_err_def Let_def split: sum.splits option.splits)
qed

lemma scan_neighbors_st_value:
  assumes "\<And>n kd. (n, kd) \<in> set nbrs \<Longrightarrow> deref (the_graph w) (cur, n) = kd"
  shows "scan_neighbors_st euclidianDistNode_st costWheelchair_st t cur dst nbrs s w
         = (scan_neighbors (\<lambda>u v. euclidianDistNode u v (the_graph w)) costWheelchair
              t cur dst nbrs s, w)"
  using euclidianDistNode_st_value costWheelchair_st_value assms
  by (rule scan_neighbors_st_value_gen)

lemma astar_loop_st_to_value:
  "astar_loop_st h c t s w = Some y \<Longrightarrow>
   h = euclidianDistNode_st \<longrightarrow> c = costWheelchair_st \<longrightarrow> dict_like (the_graph w) \<longrightarrow>
   astar_loop (the_graph w) (\<lambda>u v. euclidianDistNode u v (the_graph w)) costWheelchair t s
     = Some (fst y) \<and> snd y = w"
  apply (erule astar_loop_st.raw_induct [rotated])
  subgoal premises prems for loop h c t s w y
  proof (intro impI)
    note IH = prems(1) and body = prems(2)
    assume h: "h = euclidianDistNode_st" and c: "c = costWheelchair_st"
      and wf: "dict_like (the_graph w)"
    let ?G = "the_graph w"
    let ?val = "\<lambda>s. astar_loop ?G (\<lambda>u v. euclidianDistNode u v ?G) costWheelchair t s"
    have rec: "?val s' = Some (fst y) \<and> snd y = w" if "loop h c t s' w = Some y" for s'
      using IH [OF that] h c wf by simp
    show "?val s = Some (fst y) \<and> snd y = w"
    proof (cases "queue s = []")
      case True
      with body show ?thesis by (subst astar_loop.simps) auto
    next
      case False
      obtain p k curnode dst parent q' where
        pop: "heappop (queue s) = ((p, k, curnode, dst, parent), q')"
        by (metis prod_cases5 surj_pair)
      show ?thesis
      proof (cases "curnode = t")
        case True
        with body False pop show ?thesis by (subst astar_loop.simps) auto
      next
        case ne: False
        show ?thesis
        proof (cases "already_done s curnode dst")
          case (Inl e)
          with body False pop ne show ?thesis by (subst astar_loop.simps) auto
        next
          case (Inr skip)
          show ?thesis
          proof (cases skip)
            case True
            with body False pop ne Inr have "loop h c t (s\<lparr>queue := q'\<rparr>) w = Some y" by simp
            from rec [OF this] False pop ne Inr True show ?thesis
              by (subst astar_loop.simps) simp
          next
            case nskip: False
            show ?thesis
            proof (cases "map_of (g_adj ?G) curnode")
              case None
              with body False pop ne Inr nskip show ?thesis
                by (subst astar_loop.simps) (auto simp: read_items_def)
            next
              case (Some nbrs)
              let ?s1 = "s\<lparr>queue := q', explored := (explored s)(curnode \<mapsto> parent)\<rparr>"
              have sc: "scan_neighbors_st h c t curnode dst nbrs ?s1 w
                  = (scan_neighbors (\<lambda>u v. euclidianDistNode u v ?G) costWheelchair
                       t curnode dst nbrs ?s1, w)"
                unfolding h c using deref_item [OF wf Some] by (rule scan_neighbors_st_value)
              show ?thesis
              proof (cases "scan_neighbors (\<lambda>u v. euclidianDistNode u v ?G) costWheelchair
                       t curnode dst nbrs ?s1")
                case (Inl e)
                with body False pop ne Inr nskip Some sc show ?thesis
                  by (subst astar_loop.simps) (auto simp: read_items_def)
              next
                case (Inr s')
                with body False pop ne \<open>already_done s curnode dst = Inr skip\<close> nskip Some sc
                have "loop h c t s' w = Some y" by (simp add: read_items_def)
                from rec [OF this] False pop ne \<open>already_done s curnode dst = Inr skip\<close>
                  nskip Some Inr
                show ?thesis by (subst astar_loop.simps) simp
              qed
            qed
          qed
        qed
      qed
    qed
  qed
  done

lemma astar_loop_value_to_st:
  "astar_loop G h c t s = Some r \<Longrightarrow>
   (\<forall>w. G = the_graph w \<longrightarrow> h = (\<lambda>u v. euclidianDistNode u v G) \<longrightarrow> c = costWheelchair \<longrightarrow>
        dict_like G \<longrightarrow>
        astar_loop_st euclidianDistNode_st costWheelchair_st t s w = Some (r, w))"
  apply (erule astar_loop.raw_induct [rotated])
  subgoal premises prems for loop G h c t s r
  proof (intro allI impI)
    fix w :: world
    note IH = prems(1) and body = prems(2)
    assume G: "G = the_graph w" and h: "h = (\<lambda>u v. euclidianDistNode u v G)"
      and c: "c = costWheelchair" and wf: "dict_like G"
    let ?st = "\<lambda>s. astar_loop_st euclidianDistNode_st costWheelchair_st t s w"
    have rec: "?st s' = Some (r, w)" if "loop G h c t s' = Some r" for s'
      using IH [OF that] G h c wf by simp
    show "?st s = Some (r, w)"
    proof (cases "queue s = []")
      case True
      with body show ?thesis by (subst astar_loop_st.simps) auto
    next
      case False
      obtain p k curnode dst parent q' where
        pop: "heappop (queue s) = ((p, k, curnode, dst, parent), q')"
        by (metis prod_cases5 surj_pair)
      show ?thesis
      proof (cases "curnode = t")
        case True
        with body False pop show ?thesis by (subst astar_loop_st.simps) auto
      next
        case ne: False
        show ?thesis
        proof (cases "already_done s curnode dst")
          case (Inl e)
          with body False pop ne show ?thesis by (subst astar_loop_st.simps) auto
        next
          case (Inr skip)
          show ?thesis
          proof (cases skip)
            case True
            with body False pop ne Inr have "loop G h c t (s\<lparr>queue := q'\<rparr>) = Some r" by simp
            from rec [OF this] False pop ne Inr True show ?thesis
              by (subst astar_loop_st.simps) simp
          next
            case nskip: False
            show ?thesis
            proof (cases "map_of (g_adj G) curnode")
              case None
              with body False pop ne Inr nskip G show ?thesis
                by (subst astar_loop_st.simps) (auto simp: read_items_def)
            next
              case (Some nbrs)
              let ?s1 = "s\<lparr>queue := q', explored := (explored s)(curnode \<mapsto> parent)\<rparr>"
              have sc: "scan_neighbors_st euclidianDistNode_st costWheelchair_st t curnode dst
                          nbrs ?s1 w
                  = (scan_neighbors h c t curnode dst nbrs ?s1, w)"
                unfolding h c G using deref_item [OF wf [unfolded G] Some [unfolded G]]
                by (rule scan_neighbors_st_value)
              show ?thesis
              proof (cases "scan_neighbors h c t curnode dst nbrs ?s1")
                case (Inl e)
                with body False pop ne Inr nskip Some sc G show ?thesis
                  by (subst astar_loop_st.simps) (auto simp: read_items_def)
              next
                case (Inr s')
                with body False pop ne \<open>already_done s curnode dst = Inr skip\<close> nskip Some
                have "loop G h c t s' = Some r" by simp
                from rec [OF this] False pop ne \<open>already_done s curnode dst = Inr skip\<close>
                  nskip Some Inr sc G
                show ?thesis by (subst astar_loop_st.simps) (simp add: read_items_def)
              qed
            qed
          qed
        qed
      qed
    qed
  qed
  done

lemma astar_loop_st_value:
  fixes w :: world
  assumes "dict_like (the_graph w)"
  shows "astar_loop_st euclidianDistNode_st costWheelchair_st t s w
         = map_option (\<lambda>r. (r, w :: world))
             (astar_loop (the_graph w) (\<lambda>u v. euclidianDistNode u v (the_graph w))
                costWheelchair t s)"
proof (cases "astar_loop_st euclidianDistNode_st costWheelchair_st t s w")
  case None
  show ?thesis
  proof (cases "astar_loop (the_graph w) (\<lambda>u v. euclidianDistNode u v (the_graph w))
                  costWheelchair t s")
    case (Some r)
    from astar_loop_value_to_st [OF this] assms None show ?thesis by simp
  qed (simp add: None)
next
  case (Some y)
  from astar_loop_st_to_value [OF this] assms Some show ?thesis
    by (cases y) simp
qed

lemma wheelchairPath_st_value:
  fixes w :: world
  assumes "dict_like (the_graph w)"
  shows "wheelchairPath_st origin endpoint w = wheelchairPath origin endpoint w"
  by (auto simp: wheelchairPath_st_def wheelchairPath_def astar_path_st_def astar_path_def
        read_contains_def print_line_def astar_loop_st_value [OF assms]
        split: option.splits sum.splits)

section \<open>The cost function\<close>

text \<open>
  C2.  For an edge with attribute dict \<open>data\<close> whose length, when present, is a
  non-negative number: if the wheelchair attribute is exactly \<^verbatim>\<open>"yes"\<close> the cost is
  the edge's length, and 1 when the edge has no length; otherwise the cost is
  \<^verbatim>\<open>float('inf')\<close>.  So the cost is a number in \<open>[0, \<infinity>)\<close> or infinite, and it is
  infinite exactly when the wheelchair attribute is not \<^verbatim>\<open>"yes"\<close>.
\<close>

theorem costWheelchair_cases:
  assumes nonneg: "\<forall>l. map_of data (KStr ''length'') = Some l \<longrightarrow> (\<exists>r. l = VNum r \<and> 0 \<le> r)"
  shows "(map_of data (KStr ''wheelchair'') = Some (VStr ''yes'') \<longrightarrow>
            (\<forall>l. map_of data (KStr ''length'') = Some l \<longrightarrow> costWheelchair u v data = Attr l) \<and>
            (map_of data (KStr ''length'') = None \<longrightarrow> costWheelchair u v data = Attr (VNum 1)))
       \<and> (map_of data (KStr ''wheelchair'') \<noteq> Some (VStr ''yes'') \<longrightarrow>
            costWheelchair u v data = FloatInf)
       \<and> (\<exists>c. as_number (costWheelchair u v data) = Inr c \<and> fle (Fin 0) c)
       \<and> (costWheelchair u v data = FloatInf \<longleftrightarrow>
            map_of data (KStr ''wheelchair'') \<noteq> Some (VStr ''yes''))"
proof (cases "map_of data (KStr ''wheelchair'') = Some (VStr ''yes'')")
  case True
  show ?thesis
  proof (cases "map_of data (KStr ''length'')")
    case None
    with True show ?thesis by (simp add: costWheelchair_def py_get_def)
  next
    case (Some l)
    with nonneg obtain r where "l = VNum r" "0 \<le> r" by auto
    with True Some show ?thesis by (simp add: costWheelchair_def py_get_def)
  qed
next
  case False
  then have "py_get data (KStr ''wheelchair'') VNone \<noteq> VStr ''yes''"
    by (auto simp: py_get_def split: option.splits)
  with False show ?thesis by (simp add: costWheelchair_def)
qed

theorem costWheelchair_cases_witness:
  "costWheelchair 1 2 (street ''yes'' 5) = Attr (VNum 5)
   \<and> costWheelchair 1 2 [(KStr ''wheelchair'', VStr ''yes'')] = Attr (VNum 1)
   \<and> costWheelchair 1 2 (street ''no'' 5) = FloatInf"
  using costWheelchair_cases [of "street ''yes'' 5" 1 2]
        costWheelchair_cases [of "[(KStr ''wheelchair'', VStr ''yes'')]" 1 2]
        costWheelchair_cases [of "street ''no'' 5" 1 2]
  by (simp add: street_def)

section \<open>The heuristic\<close>







section \<open>The search\<close>

text \<open>
  C1.  The claim: when every path from \<open>u\<close> to \<open>v\<close> has an edge that is not
  accessible, the search returns the empty list; an edge of infinite cost never
  enters the queue.  On the map whose only street, from 1 to 2, is tagged
  \<^verbatim>\<open>wheelchair = "no"\<close>, the cost of that street is infinite and the search
  returns the path \<open>[1, 2]\<close> over it, printing nothing: the library adds the
  infinite cost to the distance and pushes the neighbour like any other.
\<close>

theorem blocked_street_is_taken:
  "edges_of blocked_map = [(1, 2, street ''no'' 5)]
   \<and> walk_cost [(1, 2, street ''no'' 5)] = Inr PInf
   \<and> walk_nodes 1 [(1, 2, street ''no'' 5)] = [1, 2]
   \<and> wheelchairPath 1 2 \<lparr>the_graph = blocked_map, stdout = []\<rparr>
       = Some (Inr [1, 2], \<lparr>the_graph = blocked_map, stdout = []\<rparr>)"
proof -
  have "edges_of blocked_map = [(1, 2, street ''no'' 5)]"
    by (simp add: edges_of_def map_adj)
  moreover have "walk_cost [(1, 2, street ''no'' 5)] = Inr PInf"
    by (simp add: costWheelchair_def py_get_def street_def bind_err_def)
  ultimately show ?thesis
    by (simp add: wheelchairPath_def blocked_search)
qed

text \<open>
  C3.  The claim: when an accessible path exists, the returned path has the least
  total cost among the accessible paths.  On the line map, where every street is
  accessible and the heuristic is exact, the search applies the cost function to
  the dict of parallel edges, gets an infinite cost for every street, and returns
  the direct street \<open>[1, 3]\<close> of cost 10 although the walk over node 2 costs 2.
\<close>

theorem longer_street_is_returned:
  "wheelchairPath 1 3 \<lparr>the_graph = line_map, stdout = []\<rparr>
       = Some (Inr [1, 3], \<lparr>the_graph = line_map, stdout = []\<rparr>)
   \<and> costWheelchair 1 2 [(KInt 0, VDict (street ''yes'' 1))] = FloatInf
   \<and> walk line_map 1 [(1, 3, street ''yes'' 10)] 3
   \<and> walk_nodes 1 [(1, 3, street ''yes'' 10)] = [1, 3]
   \<and> walk_cost [(1, 3, street ''yes'' 10)] = Inr (Fin 10)
   \<and> walk line_map 1 [(1, 2, street ''yes'' 1), (2, 3, street ''yes'' 1)] 3
   \<and> walk_cost [(1, 2, street ''yes'' 1), (2, 3, street ''yes'' 1)] = Inr (Fin 2)"
  by (simp add: wheelchairPath_def line_search line_edges street_cost cost_of_keydict bind_err_def)

text \<open>
  C4.  The claim: when no chain of confirmed-accessible edges joins origin and
  destination, the search returns the empty list as a normal result.  On the
  chain 1 to 2 to 3 whose second street has no wheelchair tag, that street costs
  infinity, no accessible chain reaches node 3, and the search returns
  \<open>[1, 2, 3]\<close>.
\<close>

theorem untagged_street_is_taken:
  "edges_of untagged_map = [(1, 2, street ''yes'' 1), (2, 3, [(KStr ''length'', VNum 1)])]
   \<and> walk_cost [(2, 3, [(KStr ''length'', VNum 1)])] = Inr PInf
   \<and> wheelchairPath 1 3 \<lparr>the_graph = untagged_map, stdout = []\<rparr>
       = Some (Inr [1, 2, 3], \<lparr>the_graph = untagged_map, stdout = []\<rparr>)"
proof -
  have "edges_of untagged_map = [(1, 2, street ''yes'' 1), (2, 3, [(KStr ''length'', VNum 1)])]"
    by (simp add: edges_of_def map_adj)
  moreover have "walk_cost [(2, 3, [(KStr ''length'', VNum 1)])] = Inr PInf"
    by (simp add: costWheelchair_def py_get_def bind_err_def)
  ultimately show ?thesis
    by (simp add: wheelchairPath_def untagged_search)
qed

text \<open>
  C5.  When the origin or the destination is not a node of the graph, the call ends
  with the library's NodeNotFound exception, which the program does not catch; this
  is never the empty list that stands for "no path".
\<close>

theorem wheelchairPath_absent_node:
  assumes "\<not> has_node (the_graph w) origin \<or> \<not> has_node (the_graph w) endpoint"
  shows "wheelchairPath origin endpoint w = Some (Inl NodeNotFound, w)
         \<and> (\<forall>w'. wheelchairPath origin endpoint w \<noteq> Some (Inr [], w'))"
  using assms by (simp add: wheelchairPath_def astar_path_absent)

theorem wheelchairPath_absent_node_witness:
  "\<not> has_node blocked_map 7
   \<and> wheelchairPath 7 2 \<lparr>the_graph = blocked_map, stdout = []\<rparr>
       = Some (Inl NodeNotFound, \<lparr>the_graph = blocked_map, stdout = []\<rparr>)"
  using wheelchairPath_absent_node [of "\<lparr>the_graph = blocked_map, stdout = []\<rparr>" 7 2]
  by (simp add: has_node_def blocked_map_def)

text \<open>
  C8.  For a node \<open>n\<close> of the graph, the search from \<open>n\<close> to \<open>n\<close> returns the
  single-node path \<open>[n]\<close>, the nodes of the empty walk, whose cost is 0.
\<close>

theorem wheelchairPath_same_node:
  "has_node (the_graph w) n \<Longrightarrow>
   wheelchairPath n n w = Some (Inr [n], w) \<and> walk_nodes n [] = [n] \<and> walk_cost [] = Inr (Fin 0)"
  by (simp add: wheelchairPath_def astar_path_same)

theorem wheelchairPath_same_node_witness:
  "has_node blocked_map 2
   \<and> wheelchairPath 2 2 \<lparr>the_graph = blocked_map, stdout = []\<rparr>
       = Some (Inr [2], \<lparr>the_graph = blocked_map, stdout = []\<rparr>)"
  using wheelchairPath_same_node [of "\<lparr>the_graph = blocked_map, stdout = []\<rparr>" 2]
  by (simp add: has_node_def blocked_map_def)

text \<open>
  C9.  \<^verbatim>\<open>pathFromCoords\<close> looks up both end points with the arguments \<open>(y1, x1)\<close>:
  its result does not depend on \<open>x2\<close> and \<open>y2\<close>; when the lookup returns a node
  \<open>n\<close> the search is run from \<open>n\<close> to \<open>n\<close>; and when \<open>n\<close> is a node of the graph the
  result is the single-node path \<open>[n]\<close>.
\<close>

theorem pathFromCoords_same_lookup:
  "pathFromCoords nn x1 y1 x2 y2 w = pathFromCoords nn x1 y1 x2' y2' w
   \<and> (\<forall>n. nn (the_graph w) y1 x1 = Inr n \<longrightarrow>
          pathFromCoords nn x1 y1 x2 y2 w = wheelchairPath n n w
          \<and> (has_node (the_graph w) n \<longrightarrow> pathFromCoords nn x1 y1 x2 y2 w = Some (Inr [n], w)))"
  by (auto simp: pathFromCoords_def wheelchairPath_def astar_path_same split: sum.splits)

theorem pathFromCoords_same_lookup_witness:
  "has_node blocked_map 1
   \<and> pathFromCoords (\<lambda>G y x. Inr 1) 0 0 3 4 \<lparr>the_graph = blocked_map, stdout = []\<rparr>
       = Some (Inr [1], \<lparr>the_graph = blocked_map, stdout = []\<rparr>)"
proof -
  have n1: "has_node blocked_map 1"
    by (simp add: has_node_def blocked_map_def)
  from pathFromCoords_same_lookup
         [of "\<lambda>G y x. Inr 1" 0 0 3 4 "\<lparr>the_graph = blocked_map, stdout = []\<rparr>" 3 4]
  have "pathFromCoords (\<lambda>G y x. Inr 1) 0 0 3 4 \<lparr>the_graph = blocked_map, stdout = []\<rparr>
          = Some (Inr [1], \<lparr>the_graph = blocked_map, stdout = []\<rparr>)"
    using n1 by auto
  with n1 show ?thesis by blast
qed

section \<open>The graph is only read\<close>

text \<open>
  C10.  With the world passed through every step of the call: whatever the search
  returns or raises, the graph it leaves behind is the graph it was given; so it is
  for each call of the cost function and of the heuristic, on any arguments; and on
  a graph whose adjacency is a dict the call returns what the plain reading of the
  code returns.  The call can only add a line to the output.
\<close>

theorem wheelchairPath_st_graph_unchanged:
  "(wheelchairPath_st origin endpoint w = Some (r, w') \<longrightarrow> the_graph w' = the_graph w)
   \<and> the_graph (snd (costWheelchair_st u v data w)) = the_graph w
   \<and> the_graph (snd (euclidianDistNode_st a b w)) = the_graph w
   \<and> (dict_like (the_graph w) \<longrightarrow>
        wheelchairPath_st origin endpoint w = wheelchairPath origin endpoint w)"
proof (intro conjI impI)
  assume run: "wheelchairPath_st origin endpoint w = Some (r, w')"
  then obtain r1 w1 where
    lib: "astar_path_st origin endpoint euclidianDistNode_st costWheelchair_st w = Some (r1, w1)"
    by (auto simp: wheelchairPath_st_def split: option.splits)
  have "the_graph (snd (r1, w1)) = the_graph w"
    using lib by (rule astar_path_st_frame) (simp_all add: callbacks_keep_graph)
  moreover from run lib have "the_graph w' = the_graph w1"
    by (auto simp: wheelchairPath_st_def print_line_def split: sum.splits if_splits)
  ultimately show "the_graph w' = the_graph w" by simp
next
  show "the_graph (snd (costWheelchair_st u v data w)) = the_graph w"
    using callbacks_keep_graph(2) [of u v data] by (simp add: keeps_graph_def)
next
  show "the_graph (snd (euclidianDistNode_st a b w)) = the_graph w"
    using callbacks_keep_graph(1) [of a b] by (simp add: keeps_graph_def)
next
  assume "dict_like (the_graph w)"
  then show "wheelchairPath_st origin endpoint w = wheelchairPath origin endpoint w"
    by (rule wheelchairPath_st_value)
qed

theorem wheelchairPath_st_graph_unchanged_witness:
  "dict_like dead_end_map
   \<and> wheelchairPath_st 1 3 \<lparr>the_graph = dead_end_map, stdout = []\<rparr>
       = Some (Inr [], \<lparr>the_graph = dead_end_map,
                        stdout = [''No path found that is wheelchair accessible.'']\<rparr>)
   \<and> the_graph \<lparr>the_graph = dead_end_map,
                 stdout = [''No path found that is wheelchair accessible.'']\<rparr>
       = the_graph \<lparr>the_graph = dead_end_map, stdout = []\<rparr>"
proof -
  let ?w = "\<lparr>the_graph = dead_end_map, stdout = []\<rparr>"
  let ?w' = "\<lparr>the_graph = dead_end_map,
              stdout = [''No path found that is wheelchair accessible.'']\<rparr>"
  note inst = wheelchairPath_st_graph_unchanged [of 1 3 ?w "Inr []" ?w']
  from inst dead_end_dict_like have "wheelchairPath_st 1 3 ?w = wheelchairPath 1 3 ?w"
    by simp
  with dead_end_no_path have run: "wheelchairPath_st 1 3 ?w = Some (Inr [], ?w')"
    by simp
  with inst have "the_graph ?w' = the_graph ?w" by blast
  with run dead_end_dict_like show ?thesis by blast
qed

end
